theory Spec2Isabelle
  imports Complex_Main "HOL-Library.Log_Nat" "HOL-Library.AList" "HOL-Library.Sublist"
begin

section \<open>JavaScript numbers\<close>

text \<open>
  The diff-stat computation of \<^verbatim>\<open>Reference.tsx\<close> works on JavaScript numbers, that is on
  IEEE 754 binary64 values, and divides them. A finite value is kept as the rational it
  denotes; every arithmetic operation computes the exact rational result and rounds it to
  the nearest binary64 value, ties to even. The two zeros are identified: they differ only
  under a division by zero.
\<close>

datatype number = Fin rat | PosInf | NegInf | NaN

text \<open>Rounding a rational to the nearest integer, a tie going to the even neighbour.\<close>

definition rne :: "rat \<Rightarrow> int" where
  "rne r = (let f = \<lfloor>r\<rfloor>; d = r - of_int f in
     if d < 1/2 then f else if 1/2 < d then f + 1 else if even f then f else f + 1)"

text \<open>The binary exponent of a positive rational \<open>x\<close>: the \<open>k\<close> with \<open>2^k \<le> x < 2^(k+1)\<close>.\<close>

definition ilog2 :: "rat \<Rightarrow> int" where
  "ilog2 x = (let (p, q) = quotient_of x; k = bitlen p - bitlen q in
     if 2 powi k \<le> x then k else k - 1)"

text \<open>
  Rounding to 53 significant bits; below \<open>2^-1022\<close> the spacing stays \<open>2^-1074\<close>
  (subnormal numbers).
\<close>

definition round53 :: "rat \<Rightarrow> rat" where
  "round53 x = (if x = 0 then 0 else
     let e = max (ilog2 \<bar>x\<bar> - 52) (- 1074) in
     sgn x * of_int (rne (\<bar>x\<bar> / 2 powi e)) * 2 powi e)"

text \<open>A rounded result of magnitude \<open>2^1024\<close> or more overflows to an infinity.\<close>

definition fl :: "rat \<Rightarrow> number" where
  "fl x = (let r = round53 x in
     if r = 0 then Fin 0
     else if 1024 \<le> ilog2 \<bar>r\<bar> then (if 0 < r then PosInf else NegInf)
     else Fin r)"

fun number_neg :: "number \<Rightarrow> number" where
  "number_neg (Fin x) = Fin (- x)"
| "number_neg PosInf = NegInf"
| "number_neg NegInf = PosInf"
| "number_neg NaN = NaN"

fun number_add :: "number \<Rightarrow> number \<Rightarrow> number" where
  "number_add (Fin x) (Fin y) = fl (x + y)"
| "number_add NaN _ = NaN"
| "number_add _ NaN = NaN"
| "number_add PosInf NegInf = NaN"
| "number_add NegInf PosInf = NaN"
| "number_add PosInf _ = PosInf"
| "number_add _ PosInf = PosInf"
| "number_add NegInf _ = NegInf"
| "number_add _ NegInf = NegInf"

definition number_sub :: "number \<Rightarrow> number \<Rightarrow> number" where
  "number_sub a b = number_add a (number_neg b)"

fun number_div :: "number \<Rightarrow> number \<Rightarrow> number" where
  "number_div (Fin x) (Fin y) =
     (if y = 0 then (if x = 0 then NaN else if 0 < x then PosInf else NegInf)
      else fl (x / y))"
| "number_div NaN _ = NaN"
| "number_div _ NaN = NaN"
| "number_div (Fin x) _ = Fin 0"
| "number_div PosInf (Fin y) = (if 0 \<le> y then PosInf else NegInf)"
| "number_div NegInf (Fin y) = (if 0 \<le> y then NegInf else PosInf)"
| "number_div _ _ = NaN"

fun number_gt :: "number \<Rightarrow> number \<Rightarrow> bool" where
  "number_gt (Fin x) (Fin y) = (y < x)"
| "number_gt PosInf (Fin y) = True"
| "number_gt PosInf NegInf = True"
| "number_gt (Fin x) NegInf = True"
| "number_gt _ _ = False"

fun Math_floor :: "number \<Rightarrow> number" where
  "Math_floor (Fin x) = Fin (of_int \<lfloor>x\<rfloor>)"
| "Math_floor v = v"

text \<open>
  \<^verbatim>\<open>v || dflt\<close> on a value of type \<^verbatim>\<open>number | undefined\<close>: the falsy values are
  \<^verbatim>\<open>undefined\<close>, zero and \<^verbatim>\<open>NaN\<close>.
\<close>

definition number_or :: "number option \<Rightarrow> number \<Rightarrow> number" where
  "number_or v dflt = (case v of
     None \<Rightarrow> dflt
   | Some n \<Rightarrow> if n = NaN \<or> n = Fin 0 then dflt else n)"

section \<open>The diff-stat boxes\<close>

text \<open>
  \<^verbatim>\<open>DiffStat\<close> in \<^verbatim>\<open>polarkit/src/components/Issue/Reference.tsx\<close>: the three box counts
  it computes from its props before rendering them.
\<close>

record diff_boxes =
  additionBoxes :: number
  deletionBoxes :: number
  emptyBoxes :: number

definition boxCount :: number where
  "boxCount = Fin 5"

definition threshold :: number where
  "threshold = number_div (Fin 1) boxCount"

definition DiffStat_boxes :: "number option \<Rightarrow> number option \<Rightarrow> diff_boxes" where
  "DiffStat_boxes props_additions props_deletions =
     (let additions = number_or props_additions (Fin 0);
          deletions = number_or props_deletions (Fin 0);
          total = number_add additions deletions
      in if number_gt total (Fin 0)
         then let additionBoxes' = Math_floor (number_div (number_div additions total) threshold);
                  deletionBoxes' = Math_floor (number_div (number_div deletions total) threshold)
              in \<lparr>additionBoxes = additionBoxes',
                  deletionBoxes = deletionBoxes',
                  emptyBoxes = number_sub (number_sub boxCount additionBoxes') deletionBoxes'\<rparr>
         else \<lparr>additionBoxes = Fin 0, deletionBoxes = Fin 0, emptyBoxes = boxCount\<rparr>)"

text \<open>
  The inputs the allocator is specified for: a number holding a non-negative integer, or
  an absent prop.
\<close>

definition nonneg_integer :: "number option \<Rightarrow> bool" where
  "nonneg_integer v = (case v of
     None \<Rightarrow> True
   | Some (Fin r) \<Rightarrow> 0 \<le> r \<and> of_int \<lfloor>r\<rfloor> = r \<and> fl r = Fin r
   | Some _ \<Rightarrow> False)"

section \<open>Issue references\<close>

text \<open>
  The payloads of \<^verbatim>\<open>polarkit/api/client\<close> with the fields that \<^verbatim>\<open>Reference.tsx\<close> reads.
  An optional field is an \<open>option\<close>; \<open>None\<close> is \<^verbatim>\<open>undefined\<close>. The fields of the two
  pull request payloads carry a prefix, since record fields are global names.
\<close>

record ExternalGitHubCommitReference =
  organization_name :: string
  repository_name :: string
  sha :: string
  branch_name :: "string option"
  author_avatar :: string

record PullRequestReference =
  pr_number :: number
  pr_title :: string
  pr_state :: string
  pr_created_at :: string
  pr_closed_at :: "string option"
  pr_merged_at :: "string option"
  pr_additions :: "number option"
  pr_deletions :: "number option"
  pr_author_avatar :: string

record ExternalGitHubPullRequestReference =
  ext_organization_name :: string
  ext_repository_name :: string
  ext_number :: number
  ext_title :: string
  ext_state :: string
  ext_author_avatar :: string

datatype reference_payload =
    PullRequestPayload PullRequestReference
  | CommitPayload ExternalGitHubCommitReference
  | ExternalPullRequestPayload ExternalGitHubPullRequestReference

text \<open>
  The enum \<^verbatim>\<open>IssueReferenceType\<close> is declared in \<^verbatim>\<open>polarkit/api/client\<close>;
  \<^verbatim>\<open>Reference.tsx\<close> names three members. \<open>OtherType\<close> stands for any other value the
  field holds at run time.
\<close>

datatype IssueReferenceType =
    PULL_REQUEST
  | EXTERNAL_GITHUB_COMMIT
  | EXTERNAL_GITHUB_PULL_REQUEST
  | OtherType string

record IssueReferenceRead =
  ref_id :: string
  type :: IssueReferenceType
  payload :: reference_payload

subsection \<open>Element trees\<close>

text \<open>
  What a component function returns: a tree of React elements. An element has a type (a
  host tag or a component), its props other than \<^verbatim>\<open>children\<close>, and its children in
  order. The other constructors are the JavaScript values that occur as props and as
  children; \<^verbatim>\<open>false\<close>, \<^verbatim>\<open>null\<close>, \<^verbatim>\<open>undefined\<close> and the empty string are children that
  display nothing.
\<close>

datatype etype = Tag string | Component string

datatype jsx =
    Element etype "(string \<times> jsx) list" "jsx list"
  | Fragment "jsx list"
  | Str string
  | Numb number
  | Boolv bool
  | Undefined
  | Null
  | Arr "jsx list"
  | Ref string
  | Obj reference_payload

text \<open>The links of a tree: the target and the content of every \<^verbatim>\<open>a\<close> element, in order.\<close>

fun anchors :: "jsx \<Rightarrow> (jsx option \<times> jsx list) list" where
  "anchors (Element t ps cs) =
     (if t = Tag ''a'' then [(map_of ps ''href'', cs)] else []) @ concat (map anchors cs)"
| "anchors (Fragment cs) = concat (map anchors cs)"
| "anchors (Arr cs) = concat (map anchors cs)"
| "anchors _ = []"

subsection \<open>\<^verbatim>\<open>IssueReference\<close>\<close>

definition IssueReference :: "string \<Rightarrow> string \<Rightarrow> IssueReferenceRead option \<Rightarrow> jsx" where
  "IssueReference orgName repoName reference =
     (case reference of
        None \<Rightarrow> Fragment []
      | Some r \<Rightarrow>
          if type r = PULL_REQUEST then
            Element (Component ''Box'') []
              [Element (Component ''IssueReferencePullRequest'')
                 [(''orgName'', Str orgName), (''repoName'', Str repoName), (''pr'', Obj (payload r))] []]
          else if type r = EXTERNAL_GITHUB_COMMIT then
            Element (Component ''Box'') []
              [Element (Component ''IssueReferenceExternalGitHubCommit'')
                 [(''orgName'', Str orgName), (''commit'', Obj (payload r))] []]
          else if type r = EXTERNAL_GITHUB_PULL_REQUEST then
            Element (Component ''Box'') []
              [Element (Component ''IssueReferenceExternalGitHubPullRequest'')
                 [(''pr'', Obj (payload r))] []]
          else Fragment [])"

subsection \<open>\<^verbatim>\<open>IssueReferenceExternalGitHubCommit\<close>\<close>

text \<open>
  \<^verbatim>\<open>commit.branch_name\<close> is used as a condition: \<^verbatim>\<open>undefined\<close> and the empty string are
  falsy. \<^verbatim>\<open>c && e\<close> is \<open>e\<close> when \<open>c\<close> is truthy and the falsy value \<open>c\<close> itself
  otherwise.
\<close>

definition IssueReferenceExternalGitHubCommit ::
  "string \<Rightarrow> ExternalGitHubCommitReference option \<Rightarrow> jsx" where
  "IssueReferenceExternalGitHubCommit orgName props_commit =
     (case props_commit of
        None \<Rightarrow> Fragment []
      | Some commit \<Rightarrow>
          let baseHref = ''https://github.com/'' @ organization_name commit @ ''/'' @
                repository_name commit;
              commitHref = baseHref @ ''/commit/'' @ sha commit;
              isFork = (orgName \<noteq> organization_name commit)
          in Fragment
            [Element (Component ''LeftSide'') []
               [Element (Component ''GitBranchIcon'') [] [],
                Element (Tag ''span'') [(''className'', Str ''inline-flex space-x-2'')]
                  [(case branch_name commit of
                      None \<Rightarrow> Undefined
                    | Some b \<Rightarrow>
                        if b = [] then Str []
                        else Element (Tag ''a'')
                          [(''className'', Str ''font-mono''),
                           (''href'', Str (baseHref @ ''/tree/'' @ b))]
                          [(if isFork
                            then Fragment [Str (organization_name commit), Str ''/'',
                                           Str (repository_name commit), Str ''/'']
                            else Boolv False),
                           Str b]),
                   (if branch_name commit = None \<or> branch_name commit = Some []
                    then Element (Tag ''a'')
                      [(''className'', Str ''font-mono text-gray-500''), (''href'', Str commitHref)]
                      [Str (take 6 (sha commit))]
                    else Boolv False)]],
             Element (Component ''RightSide'') []
               [Element (Component ''Avatar'') [(''src'', Str (author_avatar commit))] []]])"

section \<open>The email renderer\<close>

text \<open>
  \<^verbatim>\<open>opts.overrides\<close> of \<^verbatim>\<open>EmailRender.tsx\<close>. An override receives the props of the
  element it replaces: the props other than \<^verbatim>\<open>children\<close>, and the children. A single
  child is the value of \<^verbatim>\<open>props.children\<close>, no child leaves it \<^verbatim>\<open>undefined\<close>, several
  children make it an array.
\<close>

datatype error = TypeError

type_synonym args = "(string \<times> jsx) list \<times> jsx list"

type_synonym override = "args \<Rightarrow> error + jsx"

definition children_value :: "jsx list \<Rightarrow> jsx" where
  "children_value cs = (case cs of [] \<Rightarrow> Undefined | [c] \<Rightarrow> c | _ \<Rightarrow> Arr cs)"

text \<open>Object spread and assignment: a later entry replaces the value of an earlier key.\<close>

definition spread :: "(string \<times> jsx) list \<Rightarrow> (string \<times> jsx) list \<Rightarrow> (string \<times> jsx) list" where
  "spread ps qs = foldl (\<lambda>acc (k, v). AList.update k v acc) ps qs"

text \<open>\<^verbatim>\<open>s.replace(pat, rep)\<close> with a string pattern: the first occurrence is replaced.\<close>

fun replace_first :: "string \<Rightarrow> string \<Rightarrow> string \<Rightarrow> string" where
  "replace_first pat rep [] = (if pat = [] then rep else [])"
| "replace_first pat rep (c # cs) =
     (if prefix pat (c # cs) then rep @ drop (length pat) (c # cs)
      else c # replace_first pat rep cs)"

text \<open>
  \<^verbatim>\<open>args.children.props.className?.replace('lang-', '')\<close>: \<^verbatim>\<open>undefined\<close> for a missing
  class name, a type error for a class name that is no string.
\<close>

definition language_of :: "(string \<times> jsx) list \<Rightarrow> error + jsx" where
  "language_of cprops = (case map_of cprops ''className'' of
     None \<Rightarrow> Inr Undefined
   | Some Undefined \<Rightarrow> Inr Undefined
   | Some Null \<Rightarrow> Inr Undefined
   | Some (Str c) \<Rightarrow> Inr (Str (replace_first ''lang-'' [] c))
   | Some _ \<Rightarrow> Inl TypeError)"

text \<open>
  The \<^verbatim>\<open>pre\<close> override. Reading \<^verbatim>\<open>.type\<close> of \<^verbatim>\<open>undefined\<close> or \<^verbatim>\<open>null\<close> throws; on
  any other value that is no element it yields \<^verbatim>\<open>undefined\<close>.
\<close>

definition pre :: override where
  "pre a = (case children_value (snd a) of
     Undefined \<Rightarrow> Inl TypeError
   | Null \<Rightarrow> Inl TypeError
   | Element t cprops cs \<Rightarrow>
       if t = Tag ''code'' then
         (case language_of cprops of
            Inl e \<Rightarrow> Inl e
          | Inr language \<Rightarrow>
              if language = Str ''mermaid''
              then Inr (Element (Component ''EmailMermaid'')
                     [(''graphDefinition'', children_value cs)] [])
              else Inr (Element (Component ''EmailSyntaxHighlighter'')
                     (spread [(''language'', language)] cprops) cs))
       else Inr (Fragment [])
   | _ \<Rightarrow> Inr (Fragment []))"

definition poll :: override where
  "poll a = Inr (Element (Component ''Poll'') (spread (fst a) [(''renderer'', Ref ''EmailPoll'')]) (snd a))"

definition paywall :: override where
  "paywall a = Inr (Element (Component ''Paywall'') (fst a) (snd a))"

definition SubscribeNow :: override where
  "SubscribeNow a = Inr (Fragment [])"

definition embed :: override where
  "embed a = Inr (Element (Component ''Embed'') (fst a) (snd a))"

definition iframe :: override where
  "iframe a = Inr (Element (Component ''Iframe'') (fst a) (snd a))"

subsection \<open>The paywall cut-off\<close>

text \<open>
  Modelled from the spec: the parsed article body that the markdown library hands to the
  element factory. Neither the library nor the module \<^verbatim>\<open>./markdown\<close> is among the sources.
  The body is the sequence of its top-level nodes in source order, each as it was parsed (a
  block is an element with the block tag, its arguments are the props and the children),
  and the paywall marker where the body has one.
\<close>

datatype body_item = PaywallMarker | Node jsx

text \<open>
  Modelled from the spec: \<^verbatim>\<open>RenderArticle\<close>, declared in module \<^verbatim>\<open>./markdown\<close> (not
  among the sources), with the one field the paywall depends on, the body.
\<close>

record RenderArticle =
  body :: "body_item list"

text \<open>
  Modelled from the spec: the pre-pass of \<^verbatim>\<open>wrapStrictCreateElement\<close> (module
  \<^verbatim>\<open>./markdown\<close>, not among the sources), which determines the cut-off once per render:
  the position of the paywall marker, when the body has one and \<open>showPaywalledContent\<close> is
  false.
\<close>

fun marker_position :: "body_item list \<Rightarrow> nat option" where
  "marker_position [] = None"
| "marker_position (x # xs) =
     (if x = PaywallMarker then Some 0 else map_option Suc (marker_position xs))"

definition paywall_cutoff :: "bool \<Rightarrow> body_item list \<Rightarrow> nat option" where
  "paywall_cutoff showPaywalledContent items =
     (if showPaywalledContent then None else marker_position items)"

text \<open>
  Modelled from the spec: the paywall-prompt placeholder node that
  \<^verbatim>\<open>wrapStrictCreateElement\<close> (not among the sources) puts in the place of paywalled content.
\<close>

definition paywall_prompt :: jsx where
  "paywall_prompt = Element (Component ''Paywall'') [] []"

text \<open>
  Modelled from the spec: the nodes of a sequence of body items when every node is created
  (the marker itself is no node); the creation is the work of the markdown library, not
  among the sources.
\<close>

fun rendered_nodes :: "body_item list \<Rightarrow> jsx list" where
  "rendered_nodes [] = []"
| "rendered_nodes (PaywallMarker # xs) = rendered_nodes xs"
| "rendered_nodes (Node n # xs) = n # rendered_nodes xs"

text \<open>
  Modelled from the spec: the construction pass of \<^verbatim>\<open>wrapStrictCreateElement\<close> (not
  among the sources). The nodes before the cut-off are created as they are; the nodes after
  it are not created, one placeholder stands for all of them.
\<close>

definition strict_create :: "nat option \<Rightarrow> body_item list \<Rightarrow> jsx list" where
  "strict_create cutoff items = (case cutoff of
     None \<Rightarrow> rendered_nodes items
   | Some c \<Rightarrow> rendered_nodes (take c items) @
       (if rendered_nodes (drop (Suc c) items) = [] then [] else [paywall_prompt]))"

text \<open>
  Modelled from the spec: \<^verbatim>\<open>wrapStrictCreateElement\<close> (not among the sources) with its
  arguments, the article and the optional flag \<open>showPaywalledContent\<close>, which defaults to
  false.
\<close>

definition wrapStrictCreateElement :: "RenderArticle \<Rightarrow> bool option \<Rightarrow> body_item list \<Rightarrow> jsx list" where
  "wrapStrictCreateElement article showPaywalledContent items =
     strict_create
       (paywall_cutoff (case showPaywalledContent of None \<Rightarrow> False | Some b \<Rightarrow> b) (body article))
       items"

subsection \<open>\<^verbatim>\<open>opts\<close> and \<^verbatim>\<open>EmailRender\<close>\<close>

text \<open>
  The options of the markdown component that \<^verbatim>\<open>EmailRender.tsx\<close> sets: the override
  table, from tag to render function, and the element factory (absent unless set).
\<close>

record markdown_options =
  overrides :: "string \<rightharpoonup> override"
  createElement :: "(body_item list \<Rightarrow> jsx list) option"

text \<open>
  \<^verbatim>\<open>opts\<close>: the options \<^verbatim>\<open>markdownOpts\<close> of module \<^verbatim>\<open>./markdown\<close> (a parameter here),
  with the email overrides added to its table; they replace base entries of the same tag.
\<close>

definition opts :: "markdown_options \<Rightarrow> markdown_options" where
  "opts markdownOpts = markdownOpts
     \<lparr>overrides := overrides markdownOpts ++
        map_of [(''poll'', poll), (''paywall'', paywall), (''SubscribeNow'', SubscribeNow),
                (''embed'', embed), (''iframe'', iframe), (''pre'', pre)]\<rparr>"

text \<open>
  Modelled from the spec: the override resolution of the markdown library (not among the
  sources). For each node with a block tag the tag is looked up in the override table. If
  it is present, its render function is invoked with the arguments of the block and owns
  the output; if it is absent, the node is emitted as it is. Blocks nest: the children of a
  node are resolved first. An exception thrown by a render function ends the render.
\<close>

fun collect :: "(error + 'a) list \<Rightarrow> error + 'a list" where
  "collect [] = Inr []"
| "collect (x # xs) = (case x of
     Inl e \<Rightarrow> Inl e
   | Inr y \<Rightarrow> (case collect xs of Inl e \<Rightarrow> Inl e | Inr ys \<Rightarrow> Inr (y # ys)))"

fun render :: "(string \<rightharpoonup> override) \<Rightarrow> jsx \<Rightarrow> error + jsx" where
  "render table (Element t ps cs) = (case collect (map (render table) cs) of
     Inl e \<Rightarrow> Inl e
   | Inr cs' \<Rightarrow> (case t of
       Tag tag \<Rightarrow> (case table tag of
         Some f \<Rightarrow> f (ps, cs')
       | None \<Rightarrow> Inr (Element t ps cs'))
     | Component c \<Rightarrow> Inr (Element t ps cs')))"
| "render table (Fragment cs) = (case collect (map (render table) cs) of
     Inl e \<Rightarrow> Inl e
   | Inr cs' \<Rightarrow> Inr (Fragment cs'))"
| "render table (Arr cs) = (case collect (map (render table) cs) of
     Inl e \<Rightarrow> Inl e
   | Inr cs' \<Rightarrow> Inr (Arr cs'))"
| "render table v = Inr v"

definition render_all :: "(string \<rightharpoonup> override) \<Rightarrow> jsx list \<Rightarrow> error + jsx list" where
  "render_all table ns = collect (map (render table) ns)"

text \<open>
  Modelled from the spec: the markdown component of the library \<^verbatim>\<open>markdown-to-jsx\<close>, not
  among the sources. It hands the nodes of the body to the element factory of its options,
  and creates every node when there is none; the nodes that were created are rendered
  through the override table of its options.
\<close>

definition Markdown :: "markdown_options \<Rightarrow> body_item list \<Rightarrow> error + jsx list" where
  "Markdown options children' = render_all (overrides options)
     (case createElement options of
        None \<Rightarrow> rendered_nodes children'
      | Some create \<Rightarrow> create children')"

text \<open>
  \<^verbatim>\<open>EmailRender\<close>: the markdown component over the article body, with \<^verbatim>\<open>opts\<close> and the
  factory \<^verbatim>\<open>wrapStrictCreateElement({article})\<close>, which is given no flag.
\<close>

definition EmailRender :: "markdown_options \<Rightarrow> RenderArticle \<Rightarrow> error + jsx list" where
  "EmailRender markdownOpts article =
     Markdown ((opts markdownOpts)\<lparr>createElement := Some (wrapStrictCreateElement article None)\<rparr>)
       (body article)"

text \<open>
  A tree without a \<^verbatim>\<open>SubscribeNow\<close> block: no element of it, at any depth of the
  children, carries the tag.
\<close>

fun no_SubscribeNow :: "jsx \<Rightarrow> bool" where
  "no_SubscribeNow (Element t ps cs) = (t \<noteq> Tag ''SubscribeNow'' \<and> list_all no_SubscribeNow cs)"
| "no_SubscribeNow (Fragment cs) = list_all no_SubscribeNow cs"
| "no_SubscribeNow (Arr cs) = list_all no_SubscribeNow cs"
| "no_SubscribeNow v = True"

text \<open>
  A render function that brings no \<^verbatim>\<open>SubscribeNow\<close> block of its own: its output has
  none when the children it is given have none.
\<close>

definition keeps_no_SubscribeNow :: "override \<Rightarrow> bool" where
  "keeps_no_SubscribeNow f =
     (\<forall>ps cs out. list_all no_SubscribeNow cs \<longrightarrow> f (ps, cs) = Inr out \<longrightarrow> no_SubscribeNow out)"

section \<open>Auxiliary notions for the proofs\<close>

text \<open>The exponent of the last place of a positive rational: the spacing of the
  binary64 values around it is \<open>2 powi expo x\<close>.\<close>

definition expo :: "rat \<Rightarrow> int" where
  "expo x = max (ilog2 x - 52) (- 1074)"

text \<open>The value of \<^verbatim>\<open>threshold\<close>, the binary64 number nearest to one fifth.\<close>

definition thr :: rat where
  "thr = 3602879701896397 / 18014398509481984"

text \<open>The value whose floor is a box count, for an exact share \<open>x\<close> of the total.\<close>

definition share_steps :: "rat \<Rightarrow> rat" where
  "share_steps x = round53 (round53 x / thr)"

section \<open>Properties of the rounding\<close>

lemma two_powi_le_of_int: "0 \<le> k \<Longrightarrow> 2 ^ nat k \<le> (p::int) \<Longrightarrow> (2::rat) powi k \<le> of_int p"
proof -
  assume k: "0 \<le> k" and "2 ^ nat k \<le> p"
  then have "(of_int (2 ^ nat k) :: rat) \<le> of_int p" by (simp only: of_int_le_iff)
  then show ?thesis using k by (simp add: power_int_def)
qed

lemma of_int_less_two_powi: "0 \<le> k \<Longrightarrow> (p::int) < 2 ^ nat k \<Longrightarrow> of_int p < (2::rat) powi k"
proof -
  assume k: "0 \<le> k" and "p < 2 ^ nat k"
  then have "(of_int p :: rat) < of_int (2 ^ nat k)" by (simp only: of_int_less_iff)
  then show ?thesis using k by (simp add: power_int_def)
qed

lemma two_powi_add: "(2::rat) powi (m + n) = 2 powi m * 2 powi n"
  by (rule power_int_add) simp

lemma two_powi_quot: "(2::rat) powi (e + n) / 2 powi e = 2 powi n"
proof -
  have "(2::rat) powi (e + n) = 2 powi e * 2 powi n" by (rule two_powi_add)
  moreover have "(2::rat) powi e \<noteq> 0" by simp
  ultimately show ?thesis by simp
qed

lemma ilog2_bounds:
  assumes "0 < x"
  shows "2 powi (ilog2 x) \<le> x \<and> x < 2 powi (ilog2 x + 1)"
proof -
  obtain p q where pq: "quotient_of x = (p, q)" by (cases "quotient_of x")
  have q: "0 < q" using pq by (rule quotient_of_denom_pos)
  have x: "x = of_int p / of_int q" using pq by (rule quotient_of_div)
  have p: "0 < p" using assms q x by (simp add: zero_less_divide_iff)
  define bp where "bp = bitlen p"
  define bq where "bq = bitlen q"
  have bp: "2 ^ nat (bp - 1) \<le> p" "p < 2 ^ nat bp"
    using bitlen_bounds [OF p] by (simp_all add: bp_def)
  have bq: "2 ^ nat (bq - 1) \<le> q" "q < 2 ^ nat bq"
    using bitlen_bounds [OF q] by (simp_all add: bq_def)
  have bp1: "1 \<le> bp" unfolding bp_def using p bitlen_eq_zero_iff [of p] bitlen_nonneg [of p] by linarith
  have bq1: "1 \<le> bq" unfolding bq_def using q bitlen_eq_zero_iff [of q] bitlen_nonneg [of q] by linarith
  have P1: "(2::rat) powi (bp - 1) \<le> of_int p"
    using bp(1) bp1 by (intro two_powi_le_of_int) simp_all
  have P2: "of_int p < (2::rat) powi bp"
    using bp(2) bp1 by (intro of_int_less_two_powi) simp_all
  have Q1: "(2::rat) powi (bq - 1) \<le> of_int q"
    using bq(1) bq1 by (intro two_powi_le_of_int) simp_all
  have Q2: "of_int q < (2::rat) powi bq"
    using bq(2) bq1 by (intro of_int_less_two_powi) simp_all
  have qpos: "(0::rat) < of_int q" using q by simp
  have up: "x < 2 powi (bp - bq + 1)"
  proof -
    have "of_int p * (1::rat) < 2 powi bp * 1" using P2 by simp
    also have "2 powi bp * (1::rat) = 2 powi (bp - bq + 1) * 2 powi (bq - 1)"
      using two_powi_add [of "bp - bq + 1" "bq - 1"] by simp
    also have "\<dots> \<le> 2 powi (bp - bq + 1) * of_int q"
      using Q1 by (intro mult_left_mono) simp_all
    finally show ?thesis using qpos by (simp add: x pos_divide_less_eq)
  qed
  have lo: "2 powi (bp - bq - 1) < x"
  proof -
    have "2 powi (bp - bq - 1) * of_int q < 2 powi (bp - bq - 1) * (2::rat) powi bq"
      using Q2 by (intro mult_strict_left_mono) simp_all
    also have "\<dots> = 2 powi (bp - 1)"
      using two_powi_add [of "bp - bq - 1" bq] by simp
    also have "\<dots> \<le> of_int p" by (rule P1)
    finally show ?thesis using qpos by (simp add: x pos_less_divide_eq)
  qed
  show ?thesis
  proof (cases "2 powi (bp - bq) \<le> x")
    case True
    then have "ilog2 x = bp - bq" by (simp add: ilog2_def pq bp_def bq_def)
    with True up show ?thesis by simp
  next
    case False
    then have "ilog2 x = bp - bq - 1" by (simp add: ilog2_def pq bp_def bq_def)
    with False lo show ?thesis by simp
  qed
qed

lemma two_powi_less_imp: "(2::rat) powi m < 2 powi n \<Longrightarrow> m < n"
  using power_int_increasing [of n m "2::rat"] by (cases "m < n") simp_all

lemma ilog2_unique:
  assumes "0 < x" "2 powi k \<le> x" "x < 2 powi (k + 1)"
  shows "ilog2 x = k"
proof -
  have b: "2 powi (ilog2 x) \<le> x" "x < 2 powi (ilog2 x + 1)"
    using ilog2_bounds [OF assms(1)] by simp_all
  have "(2::rat) powi k < 2 powi (ilog2 x + 1)" using assms(2) b(2) by simp
  then have 1: "k < ilog2 x + 1" by (rule two_powi_less_imp)
  have "(2::rat) powi (ilog2 x) < 2 powi (k + 1)" using assms(3) b(1) by simp
  then have 2: "ilog2 x < k + 1" by (rule two_powi_less_imp)
  from 1 2 show ?thesis by simp
qed

lemma rne_of_int: "rne (of_int n) = n"
  by (simp add: rne_def)

lemma rne_lower: "r - 1/2 \<le> of_int (rne r)"
proof -
  show ?thesis by (auto simp: rne_def Let_def; linarith)
qed

lemma rne_between: "\<lfloor>r\<rfloor> \<le> rne r \<and> rne r \<le> \<lfloor>r\<rfloor> + 1"
  by (auto simp: rne_def Let_def)

lemma rne_mono:
  assumes "r \<le> s"
  shows "rne r \<le> rne s"
proof (cases "\<lfloor>r\<rfloor> = \<lfloor>s\<rfloor>")
  case True
  with assms show ?thesis by (auto simp: rne_def Let_def)
next
  case False
  with assms have "\<lfloor>r\<rfloor> < \<lfloor>s\<rfloor>" using floor_mono [OF assms] by linarith
  with rne_between [of r] rne_between [of s] show ?thesis by linarith
qed

lemma rne_ge_int: "of_int n \<le> r \<Longrightarrow> n \<le> rne r"
  using rne_mono [of "of_int n" r] by (simp add: rne_of_int)

lemma rne_le_int: "r \<le> of_int n \<Longrightarrow> rne r \<le> n"
  using rne_mono [of r "of_int n"] by (simp add: rne_of_int)

lemma round53_pos: "0 < x \<Longrightarrow> round53 x = of_int (rne (x / 2 powi expo x)) * 2 powi expo x"
  by (simp add: round53_def expo_def Let_def)

lemma ilog2_mono:
  assumes "0 < x" "x \<le> y"
  shows "ilog2 x \<le> ilog2 y"
proof -
  have "0 < y" using assms by simp
  have "2 powi (ilog2 x) \<le> x" using ilog2_bounds [OF assms(1)] by simp
  also have "x \<le> y" by fact
  also have "y < 2 powi (ilog2 y + 1)" using ilog2_bounds [OF \<open>0 < y\<close>] by simp
  finally have "ilog2 x < ilog2 y + 1" by (rule two_powi_less_imp)
  then show ?thesis by simp
qed

lemma round53_upper_pow:
  assumes "0 < x"
  shows "round53 x \<le> 2 powi (expo x + 53)"
proof -
  have "x < 2 powi (ilog2 x + 1)" using ilog2_bounds [OF assms] by simp
  also have "\<dots> \<le> 2 powi (expo x + 53)"
    by (rule power_int_increasing) (simp_all add: expo_def)
  finally have "x < 2 powi (expo x + 53)" .
  then have "x / 2 powi expo x < 2 powi (expo x + 53) / 2 powi expo x"
    by (simp add: divide_strict_right_mono)
  also have "\<dots> = 2 powi 53" by (rule two_powi_quot)
  also have "\<dots> = of_int (2 ^ 53)" by simp
  finally have "rne (x / 2 powi expo x) \<le> 2 ^ 53" by (intro rne_le_int) simp
  then have "(of_int (rne (x / 2 powi expo x)) :: rat) \<le> of_int (2 ^ 53)"
    by (simp only: of_int_le_iff)
  then have "of_int (rne (x / 2 powi expo x)) * 2 powi expo x \<le> (2 ^ 53 :: rat) * 2 powi expo x"
    by (intro mult_right_mono) simp_all
  also have "\<dots> = 2 powi (expo x + 53)" using two_powi_add [of "expo x" 53] by simp
  finally show ?thesis by (simp add: round53_pos [OF assms])
qed

lemma round53_lower_pow:
  assumes "0 < x" "- 1074 < expo x"
  shows "2 powi (expo x + 52) \<le> round53 x"
proof -
  have e: "expo x = ilog2 x - 52" using assms(2) by (simp add: expo_def max_def split: if_splits)
  have "2 powi (expo x + 52) \<le> x" using ilog2_bounds [OF assms(1)] by (simp add: e)
  then have "2 powi (expo x + 52) / 2 powi expo x \<le> x / 2 powi expo x"
    by (simp add: divide_right_mono)
  moreover have "2 powi (expo x + 52) / 2 powi expo x = (of_int (2 ^ 52) :: rat)"
    using two_powi_quot [of "expo x" 52] by simp
  ultimately have "2 ^ 52 \<le> rne (x / 2 powi expo x)" by (intro rne_ge_int) simp
  then have "(of_int (2 ^ 52) :: rat) \<le> of_int (rne (x / 2 powi expo x))"
    by (simp only: of_int_le_iff)
  then have A: "(2 ^ 52 :: rat) * 2 powi expo x \<le> of_int (rne (x / 2 powi expo x)) * 2 powi expo x"
    by (intro mult_right_mono) simp_all
  have "2 powi (expo x + 52) = (2 ^ 52 :: rat) * 2 powi expo x"
    using two_powi_add [of "expo x" 52] by simp
  also note A
  also have "of_int (rne (x / 2 powi expo x)) * 2 powi expo x = round53 x"
    by (simp add: round53_pos [OF assms(1)])
  finally show ?thesis .
qed

lemma round53_mono_pos:
  assumes "0 < x" "x \<le> y"
  shows "round53 x \<le> round53 y"
proof -
  have y: "0 < y" using assms by simp
  have le: "expo x \<le> expo y" using ilog2_mono [OF assms] by (simp add: expo_def)
  show ?thesis
  proof (cases "expo x = expo y")
    case True
    have "x / 2 powi expo y \<le> y / 2 powi expo y" using assms(2) by (simp add: divide_right_mono)
    then have "rne (x / 2 powi expo y) \<le> rne (y / 2 powi expo y)" by (rule rne_mono)
    then have "(of_int (rne (x / 2 powi expo y)) :: rat) \<le> of_int (rne (y / 2 powi expo y))"
      by (simp only: of_int_le_iff)
    then have "of_int (rne (x / 2 powi expo y)) * 2 powi expo y
        \<le> of_int (rne (y / 2 powi expo y)) * (2::rat) powi expo y"
      by (intro mult_right_mono) simp_all
    then show ?thesis by (simp add: round53_pos [OF assms(1)] round53_pos [OF y] True)
  next
    case False
    with le have lt: "expo x < expo y" by simp
    have "- 1074 \<le> expo x" by (simp add: expo_def)
    with lt have ey: "- 1074 < expo y" by simp
    have "round53 x \<le> 2 powi (expo x + 53)" by (rule round53_upper_pow [OF assms(1)])
    also have "\<dots> \<le> 2 powi (expo y + 52)" using lt by (intro power_int_increasing) simp_all
    also have "\<dots> \<le> round53 y" by (rule round53_lower_pow [OF y ey])
    finally show ?thesis .
  qed
qed

lemma round53_zero: "round53 0 = 0"
  by (simp add: round53_def)

lemma round53_nonneg: "0 \<le> x \<Longrightarrow> 0 \<le> round53 x"
proof (cases "x = 0")
  case True
  then show ?thesis by (simp add: round53_zero)
next
  case False
  assume "0 \<le> x"
  with False have x: "0 < x" by simp
  have "(0::rat) \<le> x / 2 powi expo x" using x by simp
  then have "0 \<le> rne (x / 2 powi expo x)" using rne_ge_int [of 0] by simp
  then show ?thesis by (simp add: round53_pos [OF x])
qed

lemma round53_mono:
  assumes "0 \<le> x" "x \<le> y"
  shows "round53 x \<le> round53 y"
proof (cases "x = 0")
  case True
  then show ?thesis using assms round53_nonneg [of y] by (simp add: round53_zero)
next
  case False
  with assms have "0 < x" by simp
  then show ?thesis using assms(2) by (rule round53_mono_pos)
qed

lemma round53_rel:
  assumes "1 \<le> x"
  shows "15 * x \<le> 16 * round53 x"
proof -
  have x: "0 < x" using assms by simp
  have "ilog2 1 \<le> ilog2 x" using assms by (intro ilog2_mono) simp_all
  moreover have "ilog2 1 = 0" by (rule ilog2_unique) simp_all
  ultimately have e: "expo x = ilog2 x - 52" by (simp add: expo_def)
  define y where "y = x / 2 powi expo x"
  have "2 powi (expo x + 52) \<le> x" using ilog2_bounds [OF x] by (simp add: e)
  then have "2 powi (expo x + 52) / 2 powi expo x \<le> y"
    by (simp add: y_def divide_right_mono)
  moreover have "2 powi (expo x + 52) / 2 powi expo x = (2 ^ 52 :: rat)"
    using two_powi_quot [of "expo x" 52] by simp
  ultimately have y52: "2 ^ 52 \<le> y" by simp
  have "15 * y \<le> 16 * (y - 1/2)" using y52 by simp
  also have "\<dots> \<le> 16 * of_int (rne y)" using rne_lower [of y] by simp
  finally have "15 * y * 2 powi expo x \<le> 16 * of_int (rne y) * 2 powi expo x"
    by (intro mult_right_mono) simp_all
  moreover have "y * 2 powi expo x = x" by (simp add: y_def)
  ultimately show ?thesis by (simp add: round53_pos [OF x] y_def mult.assoc)
qed

lemma fl_Fin:
  assumes "\<bar>round53 x\<bar> < 2 ^ 1024"
  shows "fl x = Fin (round53 x)"
proof (cases "round53 x = 0")
  case True
  then show ?thesis by (simp add: fl_def)
next
  case False
  then have pos: "0 < \<bar>round53 x\<bar>" by simp
  have "2 powi ilog2 \<bar>round53 x\<bar> \<le> \<bar>round53 x\<bar>" using ilog2_bounds [OF pos] by simp
  also have "\<dots> < 2 powi 1024" using assms by simp
  finally have "ilog2 \<bar>round53 x\<bar> < 1024" by (rule two_powi_less_imp)
  then show ?thesis using False by (simp add: fl_def Let_def)
qed

lemma fl_PosInf:
  assumes "2 ^ 1024 \<le> round53 x"
  shows "fl x = PosInf"
proof -
  have pos: "0 < round53 x" using assms by (rule less_le_trans [rotated]) simp
  then have a: "\<bar>round53 x\<bar> = round53 x" by simp
  have "(2::rat) powi 1024 \<le> round53 x" using assms by simp
  also have "\<dots> < 2 powi (ilog2 (round53 x) + 1)" using ilog2_bounds [OF pos] by simp
  finally have "1024 < ilog2 (round53 x) + 1" by (rule two_powi_less_imp)
  then show ?thesis using pos by (simp add: fl_def Let_def a)
qed

section \<open>Properties of the diff-stat boxes\<close>

lemma threshold_val: "threshold = Fin thr"
  unfolding thr_def by code_simp

lemma thr_bounds: "1 / 5 \<le> thr" "0 < thr"
  by (simp_all add: thr_def)

lemma round53_consts:
  "round53 1 = 1" "round53 (9/8) = 9/8" "round53 (45/8) = 45/8"
  "round53 (7/8) = 7/8" "round53 (15/8) = 15/8" "round53 (23/8) = 23/8"
  "round53 (31/8) = 31/8" "round53 (39/8) = 39/8"
  "round53 (11/64) = 11/64" "round53 (23/64) = 23/64" "round53 (35/64) = 35/64"
  "round53 (47/64) = 47/64" "round53 (59/64) = 59/64"
  by code_simp+

lemma fl_small:
  "fl 0 = Fin 0" "fl 1 = Fin 1" "fl 2 = Fin 2" "fl 3 = Fin 3" "fl 4 = Fin 4" "fl 5 = Fin 5"
  by code_simp+

lemma fl_nat_le5: "n \<le> 5 \<Longrightarrow> fl (of_nat n) = Fin (of_nat n)"
proof -
  assume "n \<le> 5"
  then consider "n = 0" | "n = 1" | "n = 2" | "n = 3" | "n = 4" | "n = 5" by linarith
  then show ?thesis by cases (simp_all add: fl_small)
qed

lemma fl_nonneg_small:
  assumes "0 \<le> x" "round53 x \<le> 8"
  shows "fl x = Fin (round53 x)"
proof -
  have "0 \<le> round53 x" using assms(1) by (rule round53_nonneg)
  then have "\<bar>round53 x\<bar> = round53 x" by simp
  moreover have "round53 x < 2 ^ 1024" using assms(2) by (rule le_less_trans) simp
  ultimately show ?thesis by (intro fl_Fin) simp
qed

lemma share_steps_bounds:
  assumes "0 \<le> x" "x \<le> 9/8"
  shows "0 \<le> round53 x" "round53 x \<le> 9/8" "0 \<le> share_steps x" "share_steps x \<le> 45/8"
proof -
  show 1: "0 \<le> round53 x" using assms(1) by (rule round53_nonneg)
  show 2: "round53 x \<le> 9/8" using round53_mono [OF assms] by (simp add: round53_consts)
  have 3: "0 \<le> round53 x / thr" using 1 thr_bounds by simp
  then show "0 \<le> share_steps x" unfolding share_steps_def by (rule round53_nonneg)
  have "round53 x / thr \<le> (9/8) / thr" using 2 thr_bounds(2) by (intro divide_right_mono) simp_all
  also have "\<dots> \<le> 45/8" by (simp add: thr_def)
  finally have "round53 (round53 x / thr) \<le> round53 (45/8)" using 3 by (intro round53_mono)
  then show "share_steps x \<le> 45/8" by (simp add: share_steps_def round53_consts)
qed

lemma box_number:
  assumes "0 \<le> a" "0 < T" "a / T \<le> 9/8"
  shows "Math_floor (number_div (number_div (Fin a) (Fin T)) threshold)
    = Fin (of_int \<lfloor>share_steps (a / T)\<rfloor>)"
proof -
  have x: "0 \<le> a / T" using assms by simp
  note b = share_steps_bounds [OF x assms(3)]
  have 1: "fl (a / T) = Fin (round53 (a / T))"
    using x b(2) by (intro fl_nonneg_small) simp_all
  have 2: "fl (round53 (a / T) / thr) = Fin (share_steps (a / T))"
    unfolding share_steps_def using b(1) b(4) thr_bounds
    by (intro fl_nonneg_small) (simp_all add: share_steps_def)
  show ?thesis using assms(2) thr_bounds by (simp add: threshold_val 1 2)
qed

lemma share_lower:
  assumes g: "round53 g = g" and h: "round53 h = h" and hg: "h \<le> g * thr"
    and "0 \<le> h" "g < of_int i" "0 \<le> x" "of_int i \<le> share_steps x"
  shows "h < x"
proof (rule ccontr)
  assume "\<not> h < x"
  then have "x \<le> h" by simp
  then have "round53 x \<le> h" using round53_mono [OF \<open>0 \<le> x\<close>, of h] h by simp
  then have "round53 x / thr \<le> h / thr" using thr_bounds(2) by (intro divide_right_mono) simp_all
  also have "\<dots> \<le> g" using hg thr_bounds by (simp add: pos_divide_le_eq)
  finally have le: "round53 x / thr \<le> g" .
  have "0 \<le> round53 x / thr" using round53_nonneg [OF \<open>0 \<le> x\<close>] thr_bounds by simp
  then have "share_steps x \<le> g" using round53_mono [OF _ le] g by (simp add: share_steps_def)
  with assms(5,7) show False by simp
qed

lemma share_lower_box:
  assumes "1 \<le> i" "i \<le> 5" "0 \<le> x" "of_int i \<le> share_steps x"
  shows "(12 * of_int i - 1) / 64 < x"
proof -
  from assms(1,2) consider "i = 1" | "i = 2" | "i = 3" | "i = 4" | "i = 5" by linarith
  then show ?thesis
  proof cases
    case 1
    show ?thesis using share_lower [of "7/8" "11/64" i x] assms(3,4)
      by (simp add: 1 round53_consts thr_def)
  next
    case 2
    show ?thesis using share_lower [of "15/8" "23/64" i x] assms(3,4)
      by (simp add: 2 round53_consts thr_def)
  next
    case 3
    show ?thesis using share_lower [of "23/8" "35/64" i x] assms(3,4)
      by (simp add: 3 round53_consts thr_def)
  next
    case 4
    show ?thesis using share_lower [of "31/8" "47/64" i x] assms(3,4)
      by (simp add: 4 round53_consts thr_def)
  next
    case 5
    show ?thesis using share_lower [of "39/8" "59/64" i x] assms(3,4)
      by (simp add: 5 round53_consts thr_def)
  qed
qed

lemma boxes_le5:
  assumes "0 \<le> x" "0 \<le> y" "x + y \<le> 16/15"
  shows "\<lfloor>share_steps x\<rfloor> + \<lfloor>share_steps y\<rfloor> \<le> 5"
proof (rule ccontr)
  assume neg: "\<not> ?thesis"
  define i where "i = \<lfloor>share_steps x\<rfloor>"
  define j where "j = \<lfloor>share_steps y\<rfloor>"
  have x98: "x \<le> 9/8" and y98: "y \<le> 9/8" using assms by simp_all
  have "share_steps x \<le> 45/8" by (rule share_steps_bounds [OF assms(1) x98])
  then have i5: "i \<le> 5" unfolding i_def by (simp add: floor_le_iff)
  have "share_steps y \<le> 45/8" by (rule share_steps_bounds [OF assms(2) y98])
  then have j5: "j \<le> 5" unfolding j_def by (simp add: floor_le_iff)
  from neg have six: "6 \<le> i + j" by (simp add: i_def j_def)
  with i5 j5 have i1: "1 \<le> i" and j1: "1 \<le> j" by simp_all
  have "of_int i \<le> share_steps x" by (simp add: i_def)
  then have X: "(12 * of_int i - 1) / 64 < x" by (rule share_lower_box [OF i1 i5 assms(1)])
  have "of_int j \<le> share_steps y" by (simp add: j_def)
  then have Y: "(12 * of_int j - 1) / 64 < y" by (rule share_lower_box [OF j1 j5 assms(2)])
  have "(of_int 6 :: rat) \<le> of_int (i + j)" using six by (simp only: of_int_le_iff)
  then have "(6::rat) \<le> of_int i + of_int j" by simp
  with X Y have "70 / 64 < x + y" by simp
  with assms(3) show False by simp
qed

lemma number_or_nonneg_integer:
  assumes "nonneg_integer v"
  shows "\<exists>n::nat. number_or v (Fin 0) = Fin (of_nat n)"
proof (cases v)
  case None
  then have "number_or v (Fin 0) = Fin (of_nat 0)" by (simp add: number_or_def)
  then show ?thesis by blast
next
  case (Some u)
  with assms obtain r where u: "u = Fin r" and r: "0 \<le> r" "of_int \<lfloor>r\<rfloor> = r"
    by (cases u) (simp_all add: nonneg_integer_def)
  have "0 \<le> \<lfloor>r\<rfloor>" using r(1) by simp
  then have "(of_nat (nat \<lfloor>r\<rfloor>) :: rat) = of_int \<lfloor>r\<rfloor>" by simp
  also have "\<dots> = r" by (rule r(2))
  finally have rn: "Fin r = Fin (of_nat (nat \<lfloor>r\<rfloor>))" by simp
  have "number_or v (Fin 0) = Fin r" by (simp add: Some u number_or_def)
  with rn show ?thesis by metis
qed

lemma empty_boxes:
  assumes "i + j \<le> 5"
  shows "number_sub (number_sub boxCount (Fin (of_nat i))) (Fin (of_nat j)) = Fin (of_nat (5 - i - j))"
proof -
  have i: "i \<le> 5" and j: "j \<le> 5 - i" using assms by simp_all
  have 1: "(5::rat) - of_nat i = of_nat (5 - i)" using i by (simp add: of_nat_diff)
  have 2: "(of_nat (5 - i) :: rat) - of_nat j = of_nat (5 - i - j)" using j by (simp add: of_nat_diff)
  have "number_sub boxCount (Fin (of_nat i)) = fl (5 - of_nat i)"
    by (simp add: number_sub_def boxCount_def)
  also have "\<dots> = Fin (of_nat (5 - i))" unfolding 1 by (rule fl_nat_le5) simp
  finally have "number_sub (number_sub boxCount (Fin (of_nat i))) (Fin (of_nat j))
      = fl (of_nat (5 - i) - of_nat j)"
    by (simp add: number_sub_def)
  also have "\<dots> = Fin (of_nat (5 - i - j))" unfolding 2 by (rule fl_nat_le5) simp
  finally show ?thesis .
qed

lemma zero_share: "Math_floor (number_div (Fin 0) threshold) = Fin 0"
  using thr_bounds by (simp add: threshold_val fl_small)

lemma DiffStat_boxes_nat:
  assumes A: "number_or additions (Fin 0) = Fin (of_nat n)"
    and D: "number_or deletions (Fin 0) = Fin (of_nat m)"
  shows "\<exists>i j k :: nat. DiffStat_boxes additions deletions =
      \<lparr>additionBoxes = Fin (of_nat i), deletionBoxes = Fin (of_nat j), emptyBoxes = Fin (of_nat k)\<rparr>
    \<and> i + j + k = 5"
proof -
  define s :: rat where "s = of_nat n + of_nat m"
  have total: "fl (of_nat n + of_nat m) = fl s" by (simp add: s_def)
  show ?thesis
  proof (cases "n + m = 0")
    case True
    then have "s = 0" by (simp add: s_def)
    then have "DiffStat_boxes additions deletions =
        \<lparr>additionBoxes = Fin (of_nat 0), deletionBoxes = Fin (of_nat 0), emptyBoxes = Fin (of_nat 5)\<rparr>"
      by (simp add: DiffStat_boxes_def A D total fl_small boxCount_def Let_def)
    moreover have "(0::nat) + 0 + 5 = 5" by simp
    ultimately show ?thesis by blast
  next
    case False
    then have "1 \<le> n + m" by linarith
    then have "(of_nat 1 :: rat) \<le> of_nat (n + m)" by (simp only: of_nat_le_iff)
    then have s1: "1 \<le> s" by (simp add: s_def)
    define R where "R = round53 s"
    have "round53 1 \<le> round53 s" using s1 by (intro round53_mono) simp_all
    then have R1: "1 \<le> R" by (simp add: R_def round53_consts)
    show ?thesis
    proof (cases "2 ^ 1024 \<le> R")
      case True
      then have "fl s = PosInf" unfolding R_def by (rule fl_PosInf)
      then have "DiffStat_boxes additions deletions =
          \<lparr>additionBoxes = Fin (of_nat 0), deletionBoxes = Fin (of_nat 0), emptyBoxes = Fin (of_nat 5)\<rparr>"
        using empty_boxes [of 0 0]
        by (simp add: DiffStat_boxes_def A D total zero_share Let_def)
      moreover have "(0::nat) + 0 + 5 = 5" by simp
      ultimately show ?thesis by blast
    next
      case False
      then have "\<bar>round53 s\<bar> < 2 ^ 1024" using R1 by (simp add: R_def)
      then have flR: "fl s = Fin R" unfolding R_def by (rule fl_Fin)
      have Rpos: "0 < R" using R1 by simp
      have rel: "15 * s \<le> 16 * R" unfolding R_def by (rule round53_rel [OF s1])
      define x where "x = of_nat n / R"
      define y where "y = of_nat m / R"
      have x0: "0 \<le> x" and y0: "0 \<le> y" using Rpos by (simp_all add: x_def y_def)
      have "x + y = s / R" by (simp add: x_def y_def s_def add_divide_distrib)
      also have "\<dots> \<le> 16 / 15" using rel Rpos by (simp add: pos_divide_le_eq)
      finally have xy: "x + y \<le> 16 / 15" .
      have x98: "x \<le> 9/8" and y98: "y \<le> 9/8" using xy x0 y0 by simp_all
      define i where "i = nat \<lfloor>share_steps x\<rfloor>"
      define j where "j = nat \<lfloor>share_steps y\<rfloor>"
      have "0 \<le> share_steps x" by (rule share_steps_bounds [OF x0 x98])
      then have fx: "0 \<le> \<lfloor>share_steps x\<rfloor>" by simp
      then have i: "of_int \<lfloor>share_steps x\<rfloor> = (of_nat i :: rat)" by (simp add: i_def)
      have "0 \<le> share_steps y" by (rule share_steps_bounds [OF y0 y98])
      then have fy: "0 \<le> \<lfloor>share_steps y\<rfloor>" by simp
      then have j: "of_int \<lfloor>share_steps y\<rfloor> = (of_nat j :: rat)" by (simp add: j_def)
      have "\<lfloor>share_steps x\<rfloor> + \<lfloor>share_steps y\<rfloor> \<le> 5" by (rule boxes_le5 [OF x0 y0 xy])
      then have ij: "i + j \<le> 5" unfolding i_def j_def using fx fy by linarith
      have bx: "Math_floor (number_div (fl (of_nat n / R)) threshold) = Fin (of_nat i)"
        using box_number [of "of_nat n" R, folded x_def] Rpos x98 by (simp add: i)
      have bd: "Math_floor (number_div (fl (of_nat m / R)) threshold) = Fin (of_nat j)"
        using box_number [of "of_nat m" R, folded y_def] Rpos y98 by (simp add: j)
      have "DiffStat_boxes additions deletions =
          \<lparr>additionBoxes = Fin (of_nat i), deletionBoxes = Fin (of_nat j),
           emptyBoxes = Fin (of_nat (5 - i - j))\<rparr>"
        using Rpos by (simp add: DiffStat_boxes_def A D total flR Let_def bx bd empty_boxes [OF ij])
      moreover have "i + j + (5 - i - j) = 5" using ij by simp
      ultimately show ?thesis by blast
    qed
  qed
qed


lemma number_add_five:
  assumes "i + j + k = (5::nat)"
  shows "number_add (number_add (Fin (of_nat i)) (Fin (of_nat j))) (Fin (of_nat k)) = Fin 5"
proof -
  have 1: "fl (of_nat i + of_nat j) = Fin (of_nat i + of_nat j)"
    using fl_nat_le5 [of "i + j"] assms by simp
  have "(of_nat (i + j + k) :: rat) = of_nat 5" by (simp only: assms)
  then have s: "(of_nat i :: rat) + of_nat j + of_nat k = 5" by simp
  have 2: "fl (of_nat i + of_nat j + of_nat k) = Fin 5" by (simp only: s fl_small)
  show ?thesis by (simp add: 1 2)
qed

lemma fl_one_over_thr: "fl (1 / thr) = Fin 5"
  unfolding thr_def by code_simp

lemma DiffStat_boxes_one_side:
  assumes r: "0 < r" "fl r = Fin r"
    and v: "number_or v (Fin 0) = Fin r" and z: "number_or z (Fin 0) = Fin 0"
  shows "DiffStat_boxes v z = \<lparr>additionBoxes = Fin 5, deletionBoxes = Fin 0, emptyBoxes = Fin 0\<rparr>"
    and "DiffStat_boxes z v = \<lparr>additionBoxes = Fin 0, deletionBoxes = Fin 5, emptyBoxes = Fin 0\<rparr>"
proof -
  have full: "Math_floor (number_div (fl 1) threshold) = Fin 5"
    using thr_bounds by (simp add: fl_small threshold_val fl_one_over_thr)
  have none: "Math_floor (number_div (fl 0) threshold) = Fin 0"
    using thr_bounds by (simp add: fl_small threshold_val)
  have e1: "number_sub (number_sub boxCount (Fin 5)) (Fin 0) = Fin 0"
    using empty_boxes [of 5 0] by simp
  have e2: "number_sub (number_sub boxCount (Fin 0)) (Fin 5) = Fin 0"
    using empty_boxes [of 0 5] by simp
  show "DiffStat_boxes v z = \<lparr>additionBoxes = Fin 5, deletionBoxes = Fin 0, emptyBoxes = Fin 0\<rparr>"
    using r by (simp add: DiffStat_boxes_def v z Let_def full none e1)
  show "DiffStat_boxes z v = \<lparr>additionBoxes = Fin 0, deletionBoxes = Fin 5, emptyBoxes = Fin 0\<rparr>"
    using r by (simp add: DiffStat_boxes_def v z Let_def full none e2)
qed

section \<open>The claims about the diff-stat boxes\<close>

text \<open>
  C1. For every pair of inputs \<open>additions \<ge> 0\<close> and \<open>deletions \<ge> 0\<close>, each a number
  holding a non-negative integer or an absent prop (which counts as 0), \<^verbatim>\<open>DiffStat\<close>
  computes three non-negative integers \<open>additionBoxes\<close>, \<open>deletionBoxes\<close>,
  \<open>emptyBoxes\<close> whose sum is exactly 5, as integers and when added as JavaScript numbers.
\<close>

theorem DiffStat_boxes_sum_five:
  assumes "nonneg_integer additions" "nonneg_integer deletions"
  shows "\<exists>i j k :: nat. DiffStat_boxes additions deletions =
      \<lparr>additionBoxes = Fin (of_nat i), deletionBoxes = Fin (of_nat j), emptyBoxes = Fin (of_nat k)\<rparr>
    \<and> i + j + k = 5
    \<and> number_add (number_add (Fin (of_nat i)) (Fin (of_nat j))) (Fin (of_nat k)) = Fin 5"
proof -
  obtain n :: nat where A: "number_or additions (Fin 0) = Fin (of_nat n)"
    using number_or_nonneg_integer [OF assms(1)] by blast
  obtain m :: nat where D: "number_or deletions (Fin 0) = Fin (of_nat m)"
    using number_or_nonneg_integer [OF assms(2)] by blast
  obtain i j k :: nat where b: "DiffStat_boxes additions deletions =
      \<lparr>additionBoxes = Fin (of_nat i), deletionBoxes = Fin (of_nat j), emptyBoxes = Fin (of_nat k)\<rparr>"
    and five: "i + j + k = 5"
    using DiffStat_boxes_nat [OF A D] by blast
  show ?thesis using b five number_add_five [OF five] by blast
qed

theorem DiffStat_boxes_sum_five_witness:
  "nonneg_integer (Some (Fin 3)) \<and> nonneg_integer (Some (Fin 2)) \<and>
   (\<exists>i j k :: nat. DiffStat_boxes (Some (Fin 3)) (Some (Fin 2)) =
      \<lparr>additionBoxes = Fin (of_nat i), deletionBoxes = Fin (of_nat j), emptyBoxes = Fin (of_nat k)\<rparr>
    \<and> i + j + k = 5
    \<and> number_add (number_add (Fin (of_nat i)) (Fin (of_nat j))) (Fin (of_nat k)) = Fin 5)"
proof -
  have a: "nonneg_integer (Some (Fin 3))" by code_simp
  have d: "nonneg_integer (Some (Fin 2))" by code_simp
  show ?thesis using a d DiffStat_boxes_sum_five [OF a d] by blast
qed

text \<open>
  C3, as stated: with \<open>additions = 39\<close> and \<open>deletions = 0\<close> the allocator yields
  \<open>additionBoxes = 1\<close>. It does not: 39 additions out of a total of 39 are 100% of the
  change and claim all five boxes.
\<close>

theorem DiffStat_boxes_39_0_counterexample:
  "additionBoxes (DiffStat_boxes (Some (Fin 39)) (Some (Fin 0))) = Fin 5 \<and>
   additionBoxes (DiffStat_boxes (Some (Fin 39)) (Some (Fin 0))) \<noteq> Fin 1"
  by code_simp

text \<open>
  C3, amended: the box counts follow the share of the total. With \<open>additions = 39\<close> and
  \<open>deletions = 61\<close> (39% of a total of 100) the allocator yields \<open>additionBoxes = 1\<close>, and
  with \<open>additions = 40\<close> and \<open>deletions = 60\<close> (40%) it yields \<open>additionBoxes = 2\<close>.
\<close>

theorem DiffStat_boxes_39_and_40_percent:
  "additionBoxes (DiffStat_boxes (Some (Fin 39)) (Some (Fin 61))) = Fin 1 \<and>
   additionBoxes (DiffStat_boxes (Some (Fin 40)) (Some (Fin 60))) = Fin 2"
  by code_simp

text \<open>
  C4 says that \<open>emptyBoxes \<ge> 1\<close> whenever both \<open>additions > 0\<close> and \<open>deletions > 0\<close>.
  The code at \<open>additions = 1\<close>, \<open>deletions = 4\<close> (20% and 80%): one green box, four red
  boxes and no gray one.
\<close>

theorem DiffStat_boxes_1_4:
  "DiffStat_boxes (Some (Fin 1)) (Some (Fin 4)) =
     \<lparr>additionBoxes = Fin 1, deletionBoxes = Fin 4, emptyBoxes = Fin 0\<rparr>"
  by code_simp

text \<open>
  C5. When \<open>additions + deletions\<close> is 0 (in particular when both props are absent),
  \<^verbatim>\<open>DiffStat\<close> takes the branch that leaves the defaults in place: no addition box, no
  deletion box, five empty boxes. The result is a value, there is no error path.
\<close>

theorem DiffStat_boxes_zero_total:
  assumes "number_add (number_or additions (Fin 0)) (number_or deletions (Fin 0)) = Fin 0"
  shows "DiffStat_boxes additions deletions =
    \<lparr>additionBoxes = Fin 0, deletionBoxes = Fin 0, emptyBoxes = Fin 5\<rparr>"
  using assms by (simp add: DiffStat_boxes_def Let_def boxCount_def)

theorem DiffStat_boxes_zero_total_witness:
  "number_add (number_or None (Fin 0)) (number_or None (Fin 0)) = Fin 0 \<and>
   DiffStat_boxes None None =
     \<lparr>additionBoxes = Fin 0, deletionBoxes = Fin 0, emptyBoxes = Fin 5\<rparr>"
proof -
  have h: "number_add (number_or None (Fin 0)) (number_or None (Fin 0)) = Fin 0"
    by (simp add: number_or_def fl_def round53_def)
  show ?thesis using h DiffStat_boxes_zero_total [OF h] by simp
qed

text \<open>
  C6. When one side accounts for 100% of the change, that side claims all five boxes: for a
  positive integer \<open>v\<close> on one side and zero (or an absent prop) \<open>z\<close> on the other,
  additions \<open>v\<close> and deletions \<open>z\<close> give \<open>{5, 0, 0}\<close>, and additions \<open>z\<close> and
  deletions \<open>v\<close> give \<open>{0, 5, 0}\<close>. In particular \<open>diffAllocate(100, 0) = {5, 0, 0}\<close>.
\<close>

theorem DiffStat_boxes_all_one_side:
  assumes "nonneg_integer v" "number_gt (number_or v (Fin 0)) (Fin 0)"
    and "z = None \<or> z = Some (Fin 0)"
  shows "DiffStat_boxes v z = \<lparr>additionBoxes = Fin 5, deletionBoxes = Fin 0, emptyBoxes = Fin 0\<rparr>
    \<and> DiffStat_boxes z v = \<lparr>additionBoxes = Fin 0, deletionBoxes = Fin 5, emptyBoxes = Fin 0\<rparr>"
proof -
  from assms(1,2) obtain r where v: "v = Some (Fin r)" and r: "0 < r" "fl r = Fin r"
    by (cases v; cases "the v") (auto simp: nonneg_integer_def number_or_def split: if_splits)
  have nv: "number_or v (Fin 0) = Fin r" using r(1) by (simp add: v number_or_def)
  have nz: "number_or z (Fin 0) = Fin 0" using assms(3) by (auto simp: number_or_def)
  show ?thesis using DiffStat_boxes_one_side [OF r nv nz] by simp
qed

theorem DiffStat_boxes_all_one_side_witness:
  "nonneg_integer (Some (Fin 100)) \<and> number_gt (number_or (Some (Fin 100)) (Fin 0)) (Fin 0) \<and>
   DiffStat_boxes (Some (Fin 100)) (Some (Fin 0)) =
     \<lparr>additionBoxes = Fin 5, deletionBoxes = Fin 0, emptyBoxes = Fin 0\<rparr> \<and>
   DiffStat_boxes (Some (Fin 0)) (Some (Fin 100)) =
     \<lparr>additionBoxes = Fin 0, deletionBoxes = Fin 5, emptyBoxes = Fin 0\<rparr>"
proof -
  have a: "nonneg_integer (Some (Fin 100))" by code_simp
  have b: "number_gt (number_or (Some (Fin 100)) (Fin 0)) (Fin 0)" by code_simp
  show ?thesis using a b DiffStat_boxes_all_one_side [OF a b, of "Some (Fin 0)"] by simp
qed

section \<open>Properties of the email renderer\<close>

lemma marker_position_append:
  "PaywallMarker \<notin> set before \<Longrightarrow>
   marker_position (before @ PaywallMarker # after) = Some (length before)"
  by (induction before) auto

lemma rendered_nodes_Nil_iff: "rendered_nodes xs = [] \<longleftrightarrow> (\<forall>n. Node n \<notin> set xs)"
  by (induction xs rule: rendered_nodes.induct) auto

lemma collect_append:
  "collect (xs @ ys) = (case collect xs of
     Inl e \<Rightarrow> Inl e
   | Inr a \<Rightarrow> (case collect ys of Inl e \<Rightarrow> Inl e | Inr b \<Rightarrow> Inr (a @ b)))"
  by (induction xs) (auto split: sum.splits)

lemma collect_map_Inr:
  "collect (map f xs) = Inr ys \<Longrightarrow> y \<in> set ys \<Longrightarrow> \<exists>x\<in>set xs. f x = Inr y"
proof (induction xs arbitrary: ys)
  case Nil
  then show ?case by simp
next
  case (Cons x xs)
  from Cons.prems(1) obtain z zs where z: "f x = Inr z" and zs: "collect (map f xs) = Inr zs"
    and ys: "ys = z # zs"
    by (auto split: sum.splits)
  show ?case
  proof (cases "y = z")
    case True
    with z show ?thesis by auto
  next
    case False
    with Cons.prems(2) ys have "y \<in> set zs" by simp
    with Cons.IH [OF zs] show ?thesis by auto
  qed
qed

lemma render_paywall_prompt: "render table paywall_prompt = Inr paywall_prompt"
  by (simp add: paywall_prompt_def)

lemma render_all_placeholder:
  "render_all table (ns @ [paywall_prompt]) = (case render_all table ns of
     Inl e \<Rightarrow> Inl e
   | Inr rs \<Rightarrow> Inr (rs @ [paywall_prompt]))"
  by (simp add: render_all_def collect_append render_paywall_prompt split: sum.splits)

lemma email_overrides_keep:
  "keeps_no_SubscribeNow poll" "keeps_no_SubscribeNow paywall"
  "keeps_no_SubscribeNow SubscribeNow" "keeps_no_SubscribeNow embed"
  "keeps_no_SubscribeNow iframe"
  by (simp_all add: keeps_no_SubscribeNow_def poll_def paywall_def SubscribeNow_def
      embed_def iframe_def)

lemma pre_keeps: "keeps_no_SubscribeNow pre"
  unfolding keeps_no_SubscribeNow_def
proof (intro allI impI)
  fix ps cs out
  assume cs: "list_all no_SubscribeNow cs" and out: "pre (ps, cs) = Inr out"
  show "no_SubscribeNow out"
  proof (cases cs)
    case Nil
    with out show ?thesis by (simp add: pre_def children_value_def)
  next
    case (Cons c cs')
    show ?thesis
    proof (cases cs')
      case Nil
      with Cons cs have c: "no_SubscribeNow c" by simp
      from out Cons Nil c show ?thesis
        by (cases c) (auto simp: pre_def children_value_def split: sum.splits if_splits)
    next
      case (Cons d ds)
      with \<open>cs = c # cs'\<close> out show ?thesis by (auto simp: pre_def children_value_def)
    qed
  qed
qed

lemma opts_overrides_keep:
  assumes "\<forall>tag f. overrides markdownOpts tag = Some f
        \<and> tag \<notin> {''poll'', ''paywall'', ''SubscribeNow'', ''embed'', ''iframe'', ''pre''}
      \<longrightarrow> keeps_no_SubscribeNow f"
    and "overrides (opts markdownOpts) tag = Some f"
  shows "keeps_no_SubscribeNow f"
  using assms email_overrides_keep pre_keeps
  by (auto simp: opts_def map_add_Some_iff split: if_splits)

lemma opts_SubscribeNow: "overrides (opts markdownOpts) ''SubscribeNow'' = Some SubscribeNow"
  by (simp add: opts_def)

lemma render_no_SubscribeNow:
  "render table x = Inr out \<Longrightarrow>
   \<forall>tag f. table tag = Some f \<longrightarrow> keeps_no_SubscribeNow f \<Longrightarrow>
   table ''SubscribeNow'' \<noteq> None \<Longrightarrow> no_SubscribeNow out"
proof (induction table x arbitrary: out rule: render.induct)
  case (1 table t ps cs)
  note keep = "1.prems"(2) and entry = "1.prems"(3)
  from "1.prems"(1) obtain cs' where cs': "collect (map (render table) cs) = Inr cs'"
    by (auto split: sum.splits)
  have clean: "list_all no_SubscribeNow cs'"
    unfolding list_all_iff
  proof
    fix y assume "y \<in> set cs'"
    with collect_map_Inr [OF cs'] obtain c where "c \<in> set cs" "render table c = Inr y" by blast
    then show "no_SubscribeNow y" using "1.IH" keep entry by blast
  qed
  show ?case
  proof (cases t)
    case (Tag tag)
    show ?thesis
    proof (cases "table tag")
      case None
      with entry have "tag \<noteq> ''SubscribeNow''" by auto
      with "1.prems"(1) cs' Tag None clean show ?thesis by auto
    next
      case (Some f)
      with keep have "keeps_no_SubscribeNow f" by blast
      moreover from "1.prems"(1) cs' Tag Some have "f (ps, cs') = Inr out" by simp
      ultimately show ?thesis using clean by (auto simp: keeps_no_SubscribeNow_def)
    qed
  next
    case (Component c)
    with "1.prems"(1) cs' clean show ?thesis by auto
  qed
next
  case (2 table cs)
  note keep = "2.prems"(2) and entry = "2.prems"(3)
  from "2.prems"(1) obtain cs' where cs': "collect (map (render table) cs) = Inr cs'"
    and out: "out = Fragment cs'"
    by (auto split: sum.splits)
  have "list_all no_SubscribeNow cs'"
    unfolding list_all_iff
  proof
    fix y assume "y \<in> set cs'"
    with collect_map_Inr [OF cs'] obtain c where "c \<in> set cs" "render table c = Inr y" by blast
    then show "no_SubscribeNow y" using "2.IH" keep entry by blast
  qed
  with out show ?case by simp
next
  case (3 table cs)
  note keep = "3.prems"(2) and entry = "3.prems"(3)
  from "3.prems"(1) obtain cs' where cs': "collect (map (render table) cs) = Inr cs'"
    and out: "out = Arr cs'"
    by (auto split: sum.splits)
  have "list_all no_SubscribeNow cs'"
    unfolding list_all_iff
  proof
    fix y assume "y \<in> set cs'"
    with collect_map_Inr [OF cs'] obtain c where "c \<in> set cs" "render table c = Inr y" by blast
    then show "no_SubscribeNow y" using "3.IH" keep entry by blast
  qed
  with out show ?case by simp
qed auto

lemma render_all_no_SubscribeNow:
  assumes "\<forall>tag f. table tag = Some f \<longrightarrow> keeps_no_SubscribeNow f"
    and "table ''SubscribeNow'' \<noteq> None"
    and "render_all table ns = Inr out"
  shows "list_all no_SubscribeNow out"
  unfolding list_all_iff
proof
  fix y assume "y \<in> set out"
  with collect_map_Inr [OF assms(3) [unfolded render_all_def]]
  obtain n where "render table n = Inr y" by blast
  then show "no_SubscribeNow y" using assms(1,2) by (rule render_no_SubscribeNow)
qed

section \<open>The claims about the email renderer\<close>

text \<open>
  C2. In a markdown render whose body contains a paywall marker, with
  \<open>showPaywalledContent\<close> false, the nodes positioned after the marker are replaced by
  exactly one paywall-prompt placeholder, a single one and not one per node, and every node
  positioned before the marker renders unchanged: as the markdown component renders it
  when nothing is cut. \<open>EmailRender\<close> is such a render, it passes no flag.
\<close>

theorem paywall_single_placeholder:
  assumes "body article = before @ PaywallMarker # after"
    and "PaywallMarker \<notin> set before" and "Node n \<in> set after"
  shows "wrapStrictCreateElement article (Some False) (body article)
      = rendered_nodes before @ [paywall_prompt]
    \<and> EmailRender markdownOpts article =
        (case Markdown ((opts markdownOpts)\<lparr>createElement := None\<rparr>) before of
           Inl e \<Rightarrow> Inl e
         | Inr rs \<Rightarrow> Inr (rs @ [paywall_prompt]))"
proof -
  have c: "marker_position (before @ PaywallMarker # after) = Some (length before)"
    using assms(2) by (rule marker_position_append)
  have "rendered_nodes after \<noteq> []" using assms(3) by (auto simp: rendered_nodes_Nil_iff)
  then show ?thesis
    by (simp add: EmailRender_def Markdown_def wrapStrictCreateElement_def paywall_cutoff_def
        strict_create_def c assms(1) render_all_placeholder)
qed

theorem paywall_single_placeholder_witness:
  "body \<lparr>body = [Node (Str ''free''), PaywallMarker, Node (Str ''paid''), Node (Str ''more'')]\<rparr>
     = [Node (Str ''free'')] @ PaywallMarker # [Node (Str ''paid''), Node (Str ''more'')]
   \<and> PaywallMarker \<notin> set [Node (Str ''free'')]
   \<and> Node (Str ''paid'') \<in> set [Node (Str ''paid''), Node (Str ''more'')]
   \<and> Markdown ((opts \<lparr>overrides = Map.empty, createElement = None\<rparr>)\<lparr>createElement := None\<rparr>)
       [Node (Str ''free'')] = Inr [Str ''free'']
   \<and> EmailRender \<lparr>overrides = Map.empty, createElement = None\<rparr>
       \<lparr>body = [Node (Str ''free''), PaywallMarker, Node (Str ''paid''), Node (Str ''more'')]\<rparr>
     = Inr [Str ''free'', paywall_prompt]"
  using paywall_single_placeholder
    [of "\<lparr>body = [Node (Str ''free''), PaywallMarker, Node (Str ''paid''), Node (Str ''more'')]\<rparr>"
        "[Node (Str ''free'')]" "[Node (Str ''paid''), Node (Str ''more'')]" "Str ''paid''"
        "\<lparr>overrides = Map.empty, createElement = None\<rparr>"]
  by (simp add: Markdown_def render_all_def)

text \<open>
  C7. In the email override table the render function registered for the tag
  \<^verbatim>\<open>SubscribeNow\<close> returns empty output for every input, whatever the base table holds,
  so that a \<^verbatim>\<open>SubscribeNow\<close> call-to-action never appears in email-rendered output: a
  \<^verbatim>\<open>SubscribeNow\<close> block that is rendered gives the empty fragment, and the output of
  \<^verbatim>\<open>EmailRender\<close> holds no \<^verbatim>\<open>SubscribeNow\<close> block at any depth of the children, provided the render
  functions that the base table keeps (those of other tags than the six email overrides)
  bring none of their own.
\<close>

theorem SubscribeNow_never_in_email:
  "(\<exists>f. overrides (opts markdownOpts) ''SubscribeNow'' = Some f \<and> (\<forall>a. f a = Inr (Fragment [])))
   \<and> (render (overrides (opts markdownOpts)) (Element (Tag ''SubscribeNow'') ps cs) = Inr r \<longrightarrow>
        r = Fragment [])
   \<and> ((\<forall>tag f. overrides markdownOpts tag = Some f
          \<and> tag \<notin> {''poll'', ''paywall'', ''SubscribeNow'', ''embed'', ''iframe'', ''pre''}
        \<longrightarrow> keeps_no_SubscribeNow f)
        \<and> EmailRender markdownOpts article = Inr out \<longrightarrow>
      list_all no_SubscribeNow out)"
proof (intro conjI impI)
  show "\<exists>f. overrides (opts markdownOpts) ''SubscribeNow'' = Some f \<and> (\<forall>a. f a = Inr (Fragment []))"
    by (simp add: opts_def SubscribeNow_def)
next
  assume "render (overrides (opts markdownOpts)) (Element (Tag ''SubscribeNow'') ps cs) = Inr r"
  then show "r = Fragment []"
    by (auto simp: opts_SubscribeNow SubscribeNow_def split: sum.splits)
next
  assume a: "(\<forall>tag f. overrides markdownOpts tag = Some f
      \<and> tag \<notin> {''poll'', ''paywall'', ''SubscribeNow'', ''embed'', ''iframe'', ''pre''}
    \<longrightarrow> keeps_no_SubscribeNow f)
    \<and> EmailRender markdownOpts article = Inr out"
  let ?table = "overrides (opts markdownOpts)"
  have keep: "\<forall>tag f. ?table tag = Some f \<longrightarrow> keeps_no_SubscribeNow f"
    using a opts_overrides_keep by blast
  have entry: "?table ''SubscribeNow'' \<noteq> None" by (simp add: opts_SubscribeNow)
  from a obtain ns where "render_all ?table ns = Inr out"
    by (auto simp: EmailRender_def Markdown_def)
  then show "list_all no_SubscribeNow out" by (rule render_all_no_SubscribeNow [OF keep entry])
qed

theorem SubscribeNow_never_in_email_witness:
  "render (overrides (opts \<lparr>overrides = Map.empty, createElement = None\<rparr>))
     (Element (Tag ''SubscribeNow'') [] [Str ''Subscribe'']) = Inr (Fragment [])
   \<and> EmailRender \<lparr>overrides = Map.empty, createElement = None\<rparr>
       \<lparr>body = [Node (Element (Tag ''p'') []
                  [Str ''Read on. '', Element (Tag ''SubscribeNow'') [] [Str ''Subscribe'']]),
                Node (Element (Tag ''SubscribeNow'') [] [])]\<rparr>
     = Inr [Element (Tag ''p'') [] [Str ''Read on. '', Fragment []], Fragment []]
   \<and> list_all no_SubscribeNow [Element (Tag ''p'') [] [Str ''Read on. '', Fragment []], Fragment []]"
proof -
  let ?m = "\<lparr>overrides = Map.empty, createElement = None\<rparr>"
  let ?a = "\<lparr>body = [Node (Element (Tag ''p'') []
                  [Str ''Read on. '', Element (Tag ''SubscribeNow'') [] [Str ''Subscribe'']]),
                Node (Element (Tag ''SubscribeNow'') [] [])]\<rparr>"
  have r: "render (overrides (opts ?m)) (Element (Tag ''SubscribeNow'') [] [Str ''Subscribe''])
      = Inr (Fragment [])"
    by (simp add: opts_def SubscribeNow_def)
  have b: "\<forall>tag f. overrides ?m tag = Some f
      \<and> tag \<notin> {''poll'', ''paywall'', ''SubscribeNow'', ''embed'', ''iframe'', ''pre''}
    \<longrightarrow> keeps_no_SubscribeNow f" by simp
  have e: "EmailRender ?m ?a
      = Inr [Element (Tag ''p'') [] [Str ''Read on. '', Fragment []], Fragment []]"
    by (simp add: EmailRender_def Markdown_def render_all_def wrapStrictCreateElement_def
        paywall_cutoff_def strict_create_def opts_def SubscribeNow_def)
  show ?thesis
    using r b e SubscribeNow_never_in_email
      [of ?m "[]" "[Str ''Subscribe'']" "Fragment []" ?a
          "[Element (Tag ''p'') [] [Str ''Read on. '', Fragment []], Fragment []]"]
    by simp
qed

text \<open>
  C8 says that the \<^verbatim>\<open>pre\<close> override renders empty output whenever its child is not a
  \<^verbatim>\<open>code\<close> element. The code for a \<^verbatim>\<open>pre\<close> without a child: \<^verbatim>\<open>args.children\<close> is
  \<^verbatim>\<open>undefined\<close>, reading its \<^verbatim>\<open>type\<close> throws, and the final \<^verbatim>\<open>return <></>\<close> that every
  other child that is no \<^verbatim>\<open>code\<close> element reaches is not reached.
\<close>

theorem pre_without_child_throws:
  "pre ([], []) = Inl TypeError \<and> pre ([], []) \<noteq> Inr (Fragment [])"
  by (simp add: pre_def children_value_def)

text \<open>
  The cases of the \<^verbatim>\<open>pre\<close> override that do as described. A child that is a \<^verbatim>\<open>code\<close>
  element whose language is \<^verbatim>\<open>mermaid\<close> renders the static \<^verbatim>\<open>EmailMermaid\<close> diagram
  of its content; a \<^verbatim>\<open>code\<close> element with any other language (or none, the class name
  being a string or absent) renders the email syntax highlighter; a child that is present
  and is not a \<^verbatim>\<open>code\<close> element renders empty output.
\<close>

lemma pre_with_child_cases:
  "(language_of cprops = Inr (Str ''mermaid'') \<longrightarrow>
      pre (ps, [Element (Tag ''code'') cprops cs])
        = Inr (Element (Component ''EmailMermaid'') [(''graphDefinition'', children_value cs)] []))
   \<and> (language_of cprops' = Inr l \<and> l \<noteq> Str ''mermaid'' \<longrightarrow>
      pre (ps, [Element (Tag ''code'') cprops' cs])
        = Inr (Element (Component ''EmailSyntaxHighlighter'')
                 (spread [(''language'', l)] cprops') cs))
   \<and> (children_value chs \<noteq> Undefined \<and> children_value chs \<noteq> Null
       \<and> (\<forall>cp cc. children_value chs \<noteq> Element (Tag ''code'') cp cc) \<longrightarrow>
      pre (ps, chs) = Inr (Fragment []))"
  by (auto simp: pre_def children_value_def split: jsx.splits list.splits)

lemma pre_with_child_examples:
  "pre ([], [Element (Tag ''code'') [(''className'', Str ''lang-mermaid'')] [Str ''graph TD;'']])
       = Inr (Element (Component ''EmailMermaid'') [(''graphDefinition'', Str ''graph TD;'')] [])
   \<and> pre ([], [Element (Tag ''code'') [(''className'', Str ''lang-js'')] [Str ''graph TD;'']])
       = Inr (Element (Component ''EmailSyntaxHighlighter'')
                [(''language'', Str ''js''), (''className'', Str ''lang-js'')] [Str ''graph TD;''])
   \<and> pre ([], [Str ''plain'']) = Inr (Fragment [])"
  by (simp add: pre_def language_of_def children_value_def spread_def)

section \<open>The claims about issue references\<close>

text \<open>
  C9. For a commit reference with no \<^verbatim>\<open>branch_name\<close> the renderer shows, as its only
  link, the first 6 characters of the commit sha linked to the commit URL, and no branch
  link; with a \<^verbatim>\<open>branch_name\<close> it shows the branch link instead. The renderer is a total
  function into element trees: no case throws.
\<close>

theorem commit_reference_link:
  "(branch_name commit = None \<or> branch_name commit = Some [] \<longrightarrow>
      anchors (IssueReferenceExternalGitHubCommit orgName (Some commit)) =
        [(Some (Str (''https://github.com/'' @ organization_name commit @ ''/'' @
                     repository_name commit @ ''/commit/'' @ sha commit)),
          [Str (take 6 (sha commit))])])
   \<and> (branch_name commit = Some b \<and> b \<noteq> [] \<longrightarrow>
      anchors (IssueReferenceExternalGitHubCommit orgName (Some commit)) =
        [(Some (Str (''https://github.com/'' @ organization_name commit @ ''/'' @
                     repository_name commit @ ''/tree/'' @ b)),
          [if orgName \<noteq> organization_name commit
           then Fragment [Str (organization_name commit), Str ''/'',
                          Str (repository_name commit), Str ''/'']
           else Boolv False,
           Str b])])"
  by (auto simp: IssueReferenceExternalGitHubCommit_def Let_def)

theorem commit_reference_link_witness:
  "anchors (IssueReferenceExternalGitHubCommit ''polarsource''
      (Some \<lparr>organization_name = ''polarsource'', repository_name = ''polar'',
             sha = ''0123456789abcdef'', branch_name = None, author_avatar = ''a.png''\<rparr>))
     = [(Some (Str ''https://github.com/polarsource/polar/commit/0123456789abcdef''),
         [Str ''012345''])]
   \<and> anchors (IssueReferenceExternalGitHubCommit ''polarsource''
      (Some \<lparr>organization_name = ''fork'', repository_name = ''polar'',
             sha = ''0123456789abcdef'', branch_name = Some ''main'', author_avatar = ''a.png''\<rparr>))
     = [(Some (Str ''https://github.com/fork/polar/tree/main''),
         [Fragment [Str ''fork'', Str ''/'', Str ''polar'', Str ''/''], Str ''main''])]"
  using commit_reference_link
    [of "\<lparr>organization_name = ''polarsource'', repository_name = ''polar'',
             sha = ''0123456789abcdef'', branch_name = None, author_avatar = ''a.png''\<rparr>"
        "''polarsource''" "''main''"]
    commit_reference_link
    [of "\<lparr>organization_name = ''fork'', repository_name = ''polar'',
             sha = ''0123456789abcdef'', branch_name = Some ''main'', author_avatar = ''a.png''\<rparr>"
        "''polarsource''" "''main''"]
  by simp

text \<open>
  C10. For a reference that is null, or whose type is none of \<^verbatim>\<open>PULL_REQUEST\<close>,
  \<^verbatim>\<open>EXTERNAL_GITHUB_COMMIT\<close> and \<^verbatim>\<open>EXTERNAL_GITHUB_PULL_REQUEST\<close>, \<^verbatim>\<open>IssueReference\<close>
  returns the empty fragment: nothing is thrown and no box is rendered.
\<close>

theorem IssueReference_unknown_type:
  assumes "case reference of
      None \<Rightarrow> True
    | Some r \<Rightarrow> type r \<noteq> PULL_REQUEST \<and> type r \<noteq> EXTERNAL_GITHUB_COMMIT
        \<and> type r \<noteq> EXTERNAL_GITHUB_PULL_REQUEST"
  shows "IssueReference orgName repoName reference = Fragment []"
  using assms by (cases reference) (auto simp: IssueReference_def)

theorem IssueReference_unknown_type_witness:
  "IssueReference ''polarsource'' ''polar'' None = Fragment []
   \<and> type \<lparr>ref_id = ''r1'', type = OtherType ''issue'',
          payload = CommitPayload \<lparr>organization_name = ''polarsource'', repository_name = ''polar'',
             sha = ''0123456789abcdef'', branch_name = None, author_avatar = ''a.png''\<rparr>\<rparr>
       \<noteq> PULL_REQUEST
   \<and> IssueReference ''polarsource'' ''polar''
       (Some \<lparr>ref_id = ''r1'', type = OtherType ''issue'',
          payload = CommitPayload \<lparr>organization_name = ''polarsource'', repository_name = ''polar'',
             sha = ''0123456789abcdef'', branch_name = None, author_avatar = ''a.png''\<rparr>\<rparr>)
       = Fragment []"
  using IssueReference_unknown_type [of None "''polarsource''" "''polar''"]
    IssueReference_unknown_type
      [of "Some \<lparr>ref_id = ''r1'', type = OtherType ''issue'',
          payload = CommitPayload \<lparr>organization_name = ''polarsource'', repository_name = ''polar'',
             sha = ''0123456789abcdef'', branch_name = None, author_avatar = ''a.png''\<rparr>\<rparr>"
          "''polarsource''" "''polar''"]
  by simp

end
